theory Spec2Isabelle
  imports Complex_Main "HOL-Library.Multiset"
begin

section \<open>Data model\<close>

text \<open>
  A transaction as \<^verbatim>\<open>App.js\<close> builds it (AddModal.handleSave, then addTransaction):
  \<^verbatim>\<open>{ amount, category, isIncome, date, note, id, isPinned }\<close>.
  The field \<^verbatim>\<open>id\<close> is \<open>id_tx\<close> and \<^verbatim>\<open>note\<close> is \<open>note_tx\<close> here, because both
  names are taken in Isabelle. \<^verbatim>\<open>id\<close> is a reading of \<^verbatim>\<open>Date.now()\<close>, an integer
  number of milliseconds. \<^verbatim>\<open>date\<close> is the ISO string of a valid instant
  (\<^verbatim>\<open>date.toISOString()\<close>); the code only ever reads it back through
  \<^verbatim>\<open>new Date(t.date)\<close>, so it is kept as that instant in milliseconds.
  \<^verbatim>\<open>amount\<close> is a JavaScript number. The operations modelled here only store and
  copy it and never compute with it, so a finite amount is carried as the real it
  denotes; the arithmetic of IEEE doubles is not modelled.
  \<^verbatim>\<open>note\<close> may be missing (\<open>None\<close>).
\<close>

record transaction =
  id_tx :: int
  amount :: real
  category :: string
  isIncome :: bool
  date :: int
  note_tx :: "string option"
  isPinned :: bool

text \<open>
  The state of \<^verbatim>\<open>DonationProvider\<close>: its two \<^verbatim>\<open>useState\<close> cells, the two
  AsyncStorage keys it uses, and the lines written with \<^verbatim>\<open>console.error\<close>.
  A stored value is kept decoded (\<^verbatim>\<open>JSON.stringify\<close> and \<^verbatim>\<open>JSON.parse\<close> are not
  modelled); \<open>None\<close> is a key that was never written.
\<close>

record store =
  transactions :: "transaction list"
  isDarkMode :: bool
  stored_transactions :: "transaction list option"
  stored_theme :: "string option"
  console :: "string list"

datatype error = StorageError

section \<open>Sorting by date\<close>

text \<open>The comparator \<^verbatim>\<open>(a, b) => new Date(b.date) - new Date(a.date)\<close>.\<close>

definition byDateDesc :: "transaction \<Rightarrow> transaction \<Rightarrow> int" where
  "byDateDesc a b = date b - date a"

text \<open>
  \<^verbatim>\<open>Array.prototype.sort\<close> with a comparator: a stable sort, written as insertion
  from the right. An element goes in front of the first element it must not follow
  (comparator \<open>\<le> 0\<close>), so elements that compare equal keep their order.
\<close>

fun insert_sorted :: "('a \<Rightarrow> 'a \<Rightarrow> int) \<Rightarrow> 'a \<Rightarrow> 'a list \<Rightarrow> 'a list" where
  "insert_sorted c x [] = [x]"
| "insert_sorted c x (y # ys) =
     (if c x y \<le> 0 then x # y # ys else y # insert_sorted c x ys)"

fun array_sort :: "('a \<Rightarrow> 'a \<Rightarrow> int) \<Rightarrow> 'a list \<Rightarrow> 'a list" where
  "array_sort c [] = []"
| "array_sort c (x # xs) = insert_sorted c x (array_sort c xs)"

text \<open>Most recent first.\<close>

definition sorted_desc :: "transaction list \<Rightarrow> bool" where
  "sorted_desc ts = sorted_wrt (\<lambda>a b. date b \<le> date a) ts"

section \<open>Transaction store\<close>

text \<open>
  \<^verbatim>\<open>saveTransactions(list)\<close>. The flag \<open>ok\<close> says whether
  \<^verbatim>\<open>AsyncStorage.setItem\<close> resolves; when it rejects, control leaves the
  \<^verbatim>\<open>try\<close> block before \<^verbatim>\<open>setTransactions(sorted)\<close> and the \<^verbatim>\<open>catch\<close> writes the
  log line. A rejected write is taken to leave the key as it was.
\<close>

definition saveTransactions :: "bool \<Rightarrow> transaction list \<Rightarrow> store \<Rightarrow> store" where
  "saveTransactions ok list s =
     (let sorted = array_sort byDateDesc list in
      if ok then s\<lparr>stored_transactions := Some sorted, transactions := sorted\<rparr>
      else s\<lparr>console := console s @ [''Failed to save transactions'']\<rparr>)"

text \<open>\<^verbatim>\<open>addTransaction(t)\<close>; \<open>now\<close> is the value of \<^verbatim>\<open>Date.now()\<close>.\<close>

definition addTransaction :: "bool \<Rightarrow> int \<Rightarrow> transaction \<Rightarrow> store \<Rightarrow> store" where
  "addTransaction ok now t s =
     (let withId = t\<lparr>id_tx := now, isPinned := False\<rparr> in
      saveTransactions ok (withId # transactions s) s)"

definition updateTransaction :: "bool \<Rightarrow> int \<Rightarrow> transaction \<Rightarrow> store \<Rightarrow> store" where
  "updateTransaction ok i updatedTransaction s =
     (let updated = map (\<lambda>t. if id_tx t = i then updatedTransaction\<lparr>id_tx := i\<rparr> else t)
                        (transactions s) in
      saveTransactions ok updated s)"

definition deleteTransaction :: "bool \<Rightarrow> int \<Rightarrow> store \<Rightarrow> store" where
  "deleteTransaction ok i s =
     (let filtered = filter (\<lambda>t. id_tx t \<noteq> i) (transactions s) in
      saveTransactions ok filtered s)"

text \<open>
  \<^verbatim>\<open>loadTransactions()\<close>: \<open>ok\<close> says whether reading and parsing went through.
  \<^verbatim>\<open>parsed.sort(...)\<close> sorts what was read before it is put into memory.
\<close>

definition loadTransactions :: "bool \<Rightarrow> store \<Rightarrow> store" where
  "loadTransactions ok s =
     (if ok then
        (case stored_transactions s of
           None \<Rightarrow> s
         | Some parsed \<Rightarrow> s\<lparr>transactions := array_sort byDateDesc parsed\<rparr>)
      else s\<lparr>console := console s @ [''Failed to load transactions'']\<rparr>)"

text \<open>
  \<^verbatim>\<open>toggleTheme()\<close> has no \<^verbatim>\<open>try\<close>: the state is set first, and a rejected
  \<^verbatim>\<open>setItem\<close> leaves the function as a rejected promise. The result is the error,
  if any, together with the state.
\<close>

definition toggleTheme :: "bool \<Rightarrow> store \<Rightarrow> error option \<times> store" where
  "toggleTheme ok s =
     (let next = \<not> isDarkMode s;
          s1 = s\<lparr>isDarkMode := next\<rparr> in
      if ok then (None, s1\<lparr>stored_theme := Some (if next then ''dark'' else ''light'')\<rparr>)
      else (Some StorageError, s1))"

definition loadTheme :: "bool \<Rightarrow> store \<Rightarrow> store" where
  "loadTheme ok s =
     (if ok then
        (case stored_theme s of
           None \<Rightarrow> s
         | Some theme \<Rightarrow> if theme = [] then s else s\<lparr>isDarkMode := (theme = ''dark'')\<rparr>)
      else s\<lparr>console := console s @ [''Failed to load theme'']\<rparr>)"

section \<open>Filter engine\<close>

text \<open>
  \<^verbatim>\<open>String.prototype.includes\<close>: \<open>includes_str s q\<close> says that \<open>q\<close> occurs in \<open>s\<close>
  as a contiguous piece, tried at every position from the left.
\<close>

fun startsWith :: "'a list \<Rightarrow> 'a list \<Rightarrow> bool" where
  "startsWith s [] = True"
| "startsWith [] (c # q) = False"
| "startsWith (a # s) (c # q) = (a = c \<and> startsWith s q)"

fun includes_str :: "'a list \<Rightarrow> 'a list \<Rightarrow> bool" where
  "includes_str [] q = (q = [])"
| "includes_str (a # s) q = (startsWith (a # s) q \<or> includes_str s q)"

text \<open>
  The two tests inside the second \<^verbatim>\<open>.filter\<close> of \<^verbatim>\<open>IncomeScreen\<close> and
  \<^verbatim>\<open>ExpenseScreen\<close>. \<^verbatim>\<open>String.prototype.toLowerCase\<close> belongs to the platform and is
  passed in as \<open>toLowerCase\<close>. \<^verbatim>\<open>t.note && ...\<close> is false for a missing and for an
  empty note.
\<close>

definition matchesCategory :: "string list \<Rightarrow> transaction \<Rightarrow> bool" where
  "matchesCategory selectedCategories t =
     (length selectedCategories = 0 \<or> category t \<in> set selectedCategories)"

definition matchesSearch :: "(string \<Rightarrow> string) \<Rightarrow> string \<Rightarrow> transaction \<Rightarrow> bool" where
  "matchesSearch toLowerCase searchText t =
     (searchText = []
      \<or> includes_str (toLowerCase (category t)) (toLowerCase searchText)
      \<or> (case note_tx t of
            None \<Rightarrow> False
          | Some n \<Rightarrow> n \<noteq> [] \<and> includes_str (toLowerCase n) (toLowerCase searchText)))"

definition IncomeScreen_filteredTransactions ::
  "(string \<Rightarrow> string) \<Rightarrow> string list \<Rightarrow> string \<Rightarrow> transaction list \<Rightarrow> transaction list" where
  "IncomeScreen_filteredTransactions toLowerCase selectedCategories searchText ts =
     filter (\<lambda>t. matchesCategory selectedCategories t \<and> matchesSearch toLowerCase searchText t)
       (filter (\<lambda>t. isIncome t) ts)"

definition ExpenseScreen_filteredTransactions ::
  "(string \<Rightarrow> string) \<Rightarrow> string list \<Rightarrow> string \<Rightarrow> transaction list \<Rightarrow> transaction list" where
  "ExpenseScreen_filteredTransactions toLowerCase selectedCategories searchText ts =
     filter (\<lambda>t. matchesCategory selectedCategories t \<and> matchesSearch toLowerCase searchText t)
       (filter (\<lambda>t. \<not> isIncome t) ts)"

text \<open>
  The view as the specification words it: \<open>q\<close> is a case-insensitive substring of \<open>s\<close>
  when the lowered \<open>q\<close> occurs somewhere inside the lowered \<open>s\<close>; a transaction is
  shown when its kind matches, its category is selected (or nothing is selected), and
  the search text is empty or is such a substring of the category or of a present note.
\<close>

definition ci_substring :: "(string \<Rightarrow> string) \<Rightarrow> string \<Rightarrow> string \<Rightarrow> bool" where
  "ci_substring toLowerCase q s = (\<exists>ps ss. toLowerCase s = ps @ toLowerCase q @ ss)"

definition View_spec ::
  "(string \<Rightarrow> string) \<Rightarrow> bool \<Rightarrow> string set \<Rightarrow> string \<Rightarrow> transaction list \<Rightarrow> transaction list" where
  "View_spec toLowerCase kind S q T =
     filter (\<lambda>t. isIncome t = kind
                \<and> (S = {} \<or> category t \<in> S)
                \<and> (q = [] \<or> ci_substring toLowerCase q (category t)
                    \<or> (case note_tx t of None \<Rightarrow> False
                                        | Some n \<Rightarrow> ci_substring toLowerCase q n))) T"

text \<open>A lowering of the letters A to Z only, used to run the filter on examples.\<close>

definition ascii_lower :: "char \<Rightarrow> char" where
  "ascii_lower c =
     (let n = (of_char c :: nat) in if 65 \<le> n \<and> n \<le> 90 then char_of (n + 32) else c)"

definition ascii_toLowerCase :: "string \<Rightarrow> string" where
  "ascii_toLowerCase s = map ascii_lower s"

section \<open>Runs of the provider\<close>

text \<open>
  What can happen to the provider: it is mounted again (both \<^verbatim>\<open>useState\<close> cells
  start over, storage stays), one of the two loads of its \<^verbatim>\<open>useEffect\<close> finishes, or
  the presentation layer calls one of the four operations. Each storage access carries
  its outcome.
\<close>

datatype action =
    Mount
  | LoadTransactions bool
  | LoadTheme bool
  | Add bool int transaction
  | Update bool int transaction
  | Delete bool int
  | Toggle bool

fun step :: "action \<Rightarrow> store \<Rightarrow> store" where
  "step Mount s = s\<lparr>transactions := [], isDarkMode := False\<rparr>"
| "step (LoadTransactions ok) s = loadTransactions ok s"
| "step (LoadTheme ok) s = loadTheme ok s"
| "step (Add ok now t) s = addTransaction ok now t s"
| "step (Update ok i u) s = updateTransaction ok i u s"
| "step (Delete ok i) s = deleteTransaction ok i s"
| "step (Toggle ok) s = snd (toggleTheme ok s)"

fun run :: "action list \<Rightarrow> store \<Rightarrow> store" where
  "run [] s = s"
| "run (a # as) s = run as (step a s)"

fun mutating :: "action \<Rightarrow> bool" where
  "mutating (Add ok now t) = True"
| "mutating (Update ok i u) = True"
| "mutating (Delete ok i) = True"
| "mutating a = False"

fun write_ok :: "action \<Rightarrow> bool" where
  "write_ok (Add ok now t) = ok"
| "write_ok (Update ok i u) = ok"
| "write_ok (Delete ok i) = ok"
| "write_ok a = False"

text \<open>The provider on a device where the app has never stored anything.\<close>

definition fresh_install :: store where
  "fresh_install =
     \<lparr>transactions = [], isDarkMode = False, stored_transactions = None,
      stored_theme = None, console = []\<rparr>"

definition persisted_sorted :: "store \<Rightarrow> bool" where
  "persisted_sorted s = (case stored_transactions s of None \<Rightarrow> True | Some l \<Rightarrow> sorted_desc l)"

text \<open>Example records: what AddModal hands over, before the store fills in the rest.\<close>

definition donation :: "real \<Rightarrow> int \<Rightarrow> transaction" where
  "donation a d =
     \<lparr>id_tx = 0, amount = a, category = ''GoFundMe'', isIncome = True, date = d,
      note_tx = Some ''Anlass'', isPinned = False\<rparr>"

definition payout :: "real \<Rightarrow> int \<Rightarrow> transaction" where
  "payout a d =
     \<lparr>id_tx = 0, amount = a, category = ''Bargeld'', isIncome = False, date = d,
      note_tx = Some [], isPinned = False\<rparr>"

text \<open>The store after one successful add on a fresh install.\<close>

definition after_first_add :: store where
  "after_first_add = addTransaction True 1000 (donation 50 7) fresh_install"

text \<open>A second add in the same millisecond as the first: two records with one id.\<close>

definition twice_same_id :: store where
  "twice_same_id = addTransaction True 1000 (payout 20 9) after_first_add"

text \<open>
  A run: two adds, an add whose write fails, then the provider is mounted again and
  reads the stored list back.
\<close>

definition example_run :: "action list" where
  "example_run =
     [Add True 1000 (donation 50 7), Add True 2000 (payout 20 9),
      Add False 3000 (donation 5 8), Mount, LoadTransactions True]"

text \<open>
  A list to filter: a donation with a note, a payout with an empty note, a donation of
  another category without a note, and one of that category with a note.
\<close>

definition example_list :: "transaction list" where
  "example_list =
     [(donation 50 9)\<lparr>id_tx := 3\<rparr>,
      (payout 20 8)\<lparr>id_tx := 2\<rparr>,
      (donation 10 7)\<lparr>id_tx := 1, category := ''Sonstiges'', note_tx := None\<rparr>,
      (donation 5 6)\<lparr>id_tx := 0, category := ''Sonstiges''\<rparr>]"

section \<open>Facts about the sort and about saving\<close>

lemma insert_sorted_byDateDesc:
  "insert_sorted byDateDesc x ys = insort_key (\<lambda>t. - date t) x ys"
  by (induction ys) (simp_all add: byDateDesc_def)

lemma array_sort_byDateDesc:
  "array_sort byDateDesc xs = sort_key (\<lambda>t. - date t) xs"
  by (induction xs) (simp_all add: insert_sorted_byDateDesc)

lemma sorted_desc_map: "sorted_desc ts = sorted (map (\<lambda>t. - date t) ts)"
  by (simp add: sorted_desc_def sorted_map)

lemma sorted_desc_array_sort: "sorted_desc (array_sort byDateDesc xs)"
  by (simp add: sorted_desc_map array_sort_byDateDesc)

lemma mset_array_sort: "mset (array_sort byDateDesc xs) = mset xs"
  by (simp add: array_sort_byDateDesc)

lemma set_array_sort: "set (array_sort byDateDesc xs) = set xs"
  by (simp add: array_sort_byDateDesc)

lemma length_array_sort: "length (array_sort byDateDesc xs) = length xs"
  by (simp add: array_sort_byDateDesc)

lemma array_sort_sorted: "sorted_desc xs \<Longrightarrow> array_sort byDateDesc xs = xs"
  by (simp add: sorted_desc_map array_sort_byDateDesc sort_key_id_if_sorted)

lemma sorted_desc_filter: "sorted_desc xs \<Longrightarrow> sorted_desc (filter P xs)"
  by (simp add: sorted_desc_def sorted_wrt_filter)

lemma filter_array_sort:
  "filter P (array_sort byDateDesc xs) = array_sort byDateDesc (filter P xs)"
  by (simp add: array_sort_byDateDesc filter_sort)

lemma transactions_save:
  "transactions (saveTransactions ok list s) =
     (if ok then array_sort byDateDesc list else transactions s)"
  by (simp add: saveTransactions_def Let_def)

lemma console_save:
  "console (saveTransactions ok list s) =
     (if ok then console s else console s @ [''Failed to save transactions''])"
  by (simp add: saveTransactions_def Let_def)

lemma stored_save:
  "stored_transactions (saveTransactions ok list s) =
     (if ok then Some (array_sort byDateDesc list) else stored_transactions s)"
  by (simp add: saveTransactions_def Let_def)

lemma add_transactions:
  "transactions (addTransaction True now t s) =
     array_sort byDateDesc (t\<lparr>id_tx := now, isPinned := False\<rparr> # transactions s)"
  by (simp add: addTransaction_def transactions_save Let_def)

lemma update_transactions:
  "transactions (updateTransaction ok i u s) =
     (if ok then array_sort byDateDesc
        (map (\<lambda>t. if id_tx t = i then u\<lparr>id_tx := i\<rparr> else t) (transactions s))
      else transactions s)"
  by (simp add: updateTransaction_def transactions_save Let_def)

lemma delete_transactions:
  "transactions (deleteTransaction ok i s) =
     (if ok then array_sort byDateDesc (filter (\<lambda>t. id_tx t \<noteq> i) (transactions s))
      else transactions s)"
  by (simp add: deleteTransaction_def transactions_save Let_def)

lemma after_first_add_eval:
  "after_first_add =
     \<lparr>transactions = [(donation 50 7)\<lparr>id_tx := 1000\<rparr>], isDarkMode = False,
      stored_transactions = Some [(donation 50 7)\<lparr>id_tx := 1000\<rparr>],
      stored_theme = None, console = []\<rparr>"
  by (simp add: after_first_add_def addTransaction_def saveTransactions_def
      fresh_install_def donation_def Let_def)

section \<open>A write that fails\<close>

text \<open>
  C1, as the code has it. When the write to storage fails in Add, Update or Delete, the
  failure is logged and the in-memory collection is exactly what it was before the
  call: \<^verbatim>\<open>setTransactions\<close> stands after the awaited write inside the \<^verbatim>\<open>try\<close>, so
  the attempted change never reaches memory.
\<close>

theorem persist_failure_leaves_memory:
  "transactions (addTransaction False now t s) = transactions s
   \<and> console (addTransaction False now t s) = console s @ [''Failed to save transactions'']
   \<and> transactions (updateTransaction False i u s) = transactions s
   \<and> console (updateTransaction False i u s) = console s @ [''Failed to save transactions'']
   \<and> transactions (deleteTransaction False i s) = transactions s
   \<and> console (deleteTransaction False i s) = console s @ [''Failed to save transactions'']"
  by (simp add: addTransaction_def updateTransaction_def deleteTransaction_def
      transactions_save console_save Let_def)

text \<open>
  C1 as the specification states it fails: with one donation of 50 in memory and a
  failing write, the added record is not in memory, the updated amount is still 50,
  and the deleted record is still there.
\<close>

theorem persist_failure_counterexample:
  "(payout 20 9)\<lparr>id_tx := 2000, isPinned := False\<rparr>
      \<notin> set (transactions (addTransaction False 2000 (payout 20 9) after_first_add))
   \<and> map amount (transactions (updateTransaction False 1000 (donation 75 7) after_first_add)) = [50]
   \<and> map id_tx (transactions (deleteTransaction False 1000 after_first_add)) = [1000]"
  by (simp add: after_first_add_eval addTransaction_def updateTransaction_def
      deleteTransaction_def saveTransactions_def donation_def payout_def Let_def)

section \<open>Add\<close>

text \<open>
  C3, as the code has it. An Add whose write succeeds makes the collection one longer:
  it holds the old records and the new one, whose \<open>id\<close> is the clock reading and whose
  \<open>isPinned\<close> is false. The store does not look at the amount. The new id is the only
  one of its value, and ids stay distinct, when the clock reading differs from every
  id already there; the code does not check that.
\<close>

theorem add_success:
  "length (transactions (addTransaction True now t s)) = Suc (length (transactions s))
   \<and> mset (transactions (addTransaction True now t s))
       = add_mset (t\<lparr>id_tx := now, isPinned := False\<rparr>) (mset (transactions s))
   \<and> (now \<notin> id_tx ` set (transactions s) \<longrightarrow>
        filter (\<lambda>u. id_tx u = now) (transactions (addTransaction True now t s))
          = [t\<lparr>id_tx := now, isPinned := False\<rparr>]
        \<and> (distinct (map id_tx (transactions s)) \<longrightarrow>
             distinct (map id_tx (transactions (addTransaction True now t s)))))"
proof -
  let ?new = "t\<lparr>id_tx := now, isPinned := False\<rparr>"
  let ?res = "transactions (addTransaction True now t s)"
  have len: "length ?res = Suc (length (transactions s))"
    by (simp add: add_transactions length_array_sort del: array_sort.simps)
  have ms: "mset ?res = add_mset ?new (mset (transactions s))"
    by (simp add: add_transactions mset_array_sort del: array_sort.simps)
  have uniq: "filter (\<lambda>u. id_tx u = now) ?res = [?new]"
    if fresh: "now \<notin> id_tx ` set (transactions s)"
  proof -
    have none: "filter (\<lambda>u. id_tx u = now) (transactions s) = []"
      using fresh by (auto simp: filter_empty_conv)
    have "filter (\<lambda>u. id_tx u = now) ?res
            = array_sort byDateDesc (filter (\<lambda>u. id_tx u = now) (?new # transactions s))"
      by (simp only: add_transactions filter_array_sort)
    also have "\<dots> = [?new]"
      using none by simp
    finally show ?thesis .
  qed
  have dist: "distinct (map id_tx ?res)"
    if fresh: "now \<notin> id_tx ` set (transactions s)"
      and d: "distinct (map id_tx (transactions s))"
  proof -
    have "mset (map id_tx ?res) = mset (map id_tx (?new # transactions s))"
      using ms by (metis mset.simps(2) mset_map)
    moreover have "distinct (map id_tx (?new # transactions s))"
      using fresh d by simp
    ultimately show ?thesis
      by (metis mset_eq_imp_distinct_iff)
  qed
  show ?thesis using len ms uniq dist by blast
qed

theorem add_success_witness:
  "2000 \<notin> id_tx ` set (transactions after_first_add)
   \<and> distinct (map id_tx (transactions after_first_add))
   \<and> length (transactions (addTransaction True 2000 (payout 20 9) after_first_add)) = 2
   \<and> filter (\<lambda>u. id_tx u = 2000)
        (transactions (addTransaction True 2000 (payout 20 9) after_first_add))
       = [(payout 20 9)\<lparr>id_tx := 2000, isPinned := False\<rparr>]
   \<and> distinct (map id_tx (transactions (addTransaction True 2000 (payout 20 9) after_first_add)))"
proof -
  have fresh: "2000 \<notin> id_tx ` set (transactions after_first_add)"
    by (simp add: after_first_add_eval donation_def)
  have d: "distinct (map id_tx (transactions after_first_add))"
    by (simp add: after_first_add_eval)
  show ?thesis
    using fresh d add_success [of 2000 "payout 20 9" after_first_add]
    by (simp add: after_first_add_eval)
qed

text \<open>
  C3 as the specification states it fails twice over, on a valid input (amount 20):
  when the write fails the collection does not grow, and when \<^verbatim>\<open>Date.now()\<close> returns
  a value that is already an id (here 1000), two records carry that id.
\<close>

theorem add_counterexample:
  "0 < amount (payout 20 9)
   \<and> length (transactions (addTransaction False 2000 (payout 20 9) after_first_add))
       = length (transactions after_first_add)
   \<and> map id_tx (transactions after_first_add) = [1000]
   \<and> map id_tx (transactions (addTransaction True 1000 (payout 20 9) after_first_add))
       = [1000, 1000]"
  by (simp add: after_first_add_eval addTransaction_def
      saveTransactions_def donation_def payout_def byDateDesc_def Let_def)

section \<open>Delete\<close>

lemma length_filter_other_ids:
  "distinct (map id_tx ts) \<Longrightarrow> i \<in> id_tx ` set ts \<Longrightarrow>
     Suc (length (filter (\<lambda>t. id_tx t \<noteq> i) ts)) = length ts"
proof (induction ts)
  case Nil
  then show ?case by simp
next
  case (Cons t ts)
  show ?case
  proof (cases "id_tx t = i")
    case True
    with Cons.prems have "i \<notin> id_tx ` set ts" by auto
    then have "filter (\<lambda>t. id_tx t \<noteq> i) ts = ts"
      by (auto simp: filter_id_conv)
    with True show ?thesis by simp
  next
    case False
    with Cons show ?thesis by auto
  qed
qed

lemma filter_absent_id:
  "i \<notin> id_tx ` set ts \<Longrightarrow> filter (\<lambda>t. id_tx t \<noteq> i) ts = ts"
  by (auto simp: filter_id_conv)

lemma map_absent_id:
  "i \<notin> id_tx ` set ts \<Longrightarrow> map (\<lambda>t. if id_tx t = i then u else t) ts = ts"
  by (induction ts) auto

text \<open>
  C4, as the code has it. When the write succeeds and the collection holds the id
  (ids distinct), Delete leaves exactly one element fewer and none with that id. When
  no transaction has the id, Delete changes nothing in memory, whether the write
  succeeds or not: the records are the same, and so is their order when the list was
  sorted by date, as the store keeps it.
\<close>

theorem delete_present_or_absent:
  "(distinct (map id_tx (transactions s)) \<and> i \<in> id_tx ` set (transactions s) \<longrightarrow>
      Suc (length (transactions (deleteTransaction True i s))) = length (transactions s)
      \<and> i \<notin> id_tx ` set (transactions (deleteTransaction True i s)))
   \<and> (i \<notin> id_tx ` set (transactions s) \<longrightarrow>
      mset (transactions (deleteTransaction ok i s)) = mset (transactions s)
      \<and> (sorted_desc (transactions s) \<longrightarrow>
           transactions (deleteTransaction ok i s) = transactions s))"
proof -
  have present: "Suc (length (transactions (deleteTransaction True i s))) = length (transactions s)"
    if "distinct (map id_tx (transactions s))" "i \<in> id_tx ` set (transactions s)"
    using that by (simp add: delete_transactions length_array_sort length_filter_other_ids)
  have gone: "i \<notin> id_tx ` set (transactions (deleteTransaction True i s))"
    by (auto simp: delete_transactions set_array_sort)
  have same_mset: "mset (transactions (deleteTransaction ok i s)) = mset (transactions s)"
    if "i \<notin> id_tx ` set (transactions s)"
    using that by (simp add: delete_transactions mset_array_sort filter_absent_id)
  have same_list: "transactions (deleteTransaction ok i s) = transactions s"
    if "i \<notin> id_tx ` set (transactions s)" "sorted_desc (transactions s)"
    using that by (simp add: delete_transactions filter_absent_id array_sort_sorted)
  show ?thesis using present gone same_mset same_list by blast
qed

theorem delete_witness:
  "distinct (map id_tx (transactions after_first_add))
   \<and> 1000 \<in> id_tx ` set (transactions after_first_add)
   \<and> length (transactions (deleteTransaction True 1000 after_first_add)) = 0
   \<and> 1000 \<notin> id_tx ` set (transactions (deleteTransaction True 1000 after_first_add))
   \<and> 2000 \<notin> id_tx ` set (transactions after_first_add)
   \<and> sorted_desc (transactions after_first_add)
   \<and> transactions (deleteTransaction True 2000 after_first_add) = transactions after_first_add"
proof -
  have d: "distinct (map id_tx (transactions after_first_add))"
    by (simp add: after_first_add_eval)
  have p: "1000 \<in> id_tx ` set (transactions after_first_add)"
    by (simp add: after_first_add_eval donation_def)
  have a: "2000 \<notin> id_tx ` set (transactions after_first_add)"
    by (simp add: after_first_add_eval donation_def)
  have sd: "sorted_desc (transactions after_first_add)"
    by (simp add: after_first_add_eval sorted_desc_def)
  show ?thesis
    using d p a sd delete_present_or_absent [of after_first_add 1000 True]
      delete_present_or_absent [of after_first_add 2000 True]
    by (simp add: after_first_add_eval)
qed

text \<open>
  C4 as the specification states it fails when the write fails: the record with id
  1000 is present, ids are distinct, and after Delete it is still in memory.
\<close>

theorem delete_counterexample:
  "distinct (map id_tx (transactions after_first_add))
   \<and> 1000 \<in> id_tx ` set (transactions after_first_add)
   \<and> length (transactions (deleteTransaction False 1000 after_first_add))
       = length (transactions after_first_add)
   \<and> 1000 \<in> id_tx ` set (transactions (deleteTransaction False 1000 after_first_add))"
  by (simp add: after_first_add_eval deleteTransaction_def saveTransactions_def
      donation_def Let_def)

text \<open>
  C10, as the code has it. Delete twice gives the same in-memory collection as Delete
  once whenever the first write succeeds or the second fails; and a Delete whose write
  succeeds leaves no record with the id, however many there were.
\<close>

theorem delete_twice:
  "(ok1 \<or> \<not> ok2 \<longrightarrow>
      transactions (deleteTransaction ok2 i (deleteTransaction ok1 i s))
        = transactions (deleteTransaction ok1 i s))
   \<and> i \<notin> id_tx ` set (transactions (deleteTransaction True i s))"
proof -
  let ?P = "\<lambda>t. id_tx t \<noteq> i"
  let ?once = "array_sort byDateDesc (filter ?P (transactions s))"
  have keep: "filter ?P ?once = ?once"
    by (auto simp: filter_id_conv set_array_sort)
  have again: "array_sort byDateDesc (filter ?P ?once) = ?once"
    unfolding keep by (rule array_sort_sorted) (rule sorted_desc_array_sort)
  have first_ok: "transactions (deleteTransaction ok2 i (deleteTransaction True i s))
      = transactions (deleteTransaction True i s)"
    using again by (simp add: delete_transactions)
  have both_fail: "transactions (deleteTransaction False i (deleteTransaction False i s))
      = transactions (deleteTransaction False i s)"
    by (simp add: delete_transactions)
  have gone: "i \<notin> id_tx ` set (transactions (deleteTransaction True i s))"
    by (auto simp: delete_transactions set_array_sort)
  show ?thesis
    using first_ok both_fail gone by (cases ok1; cases ok2) simp_all
qed

theorem delete_twice_witness:
  "map id_tx (transactions twice_same_id) = [1000, 1000]
   \<and> transactions (deleteTransaction True 1000 (deleteTransaction True 1000 twice_same_id))
       = transactions (deleteTransaction True 1000 twice_same_id)
   \<and> transactions (deleteTransaction True 1000 twice_same_id) = []"
proof -
  have ids: "map id_tx (transactions twice_same_id) = [1000, 1000]"
    by (simp add: twice_same_id_def after_first_add_eval addTransaction_def
      saveTransactions_def donation_def payout_def byDateDesc_def Let_def)
  have "1000 \<notin> id_tx ` set (transactions (deleteTransaction True 1000 twice_same_id))"
    using delete_twice [of True True 1000 twice_same_id] by simp
  moreover have "set (transactions (deleteTransaction True 1000 twice_same_id))
      \<subseteq> set (transactions twice_same_id)"
    by (simp add: delete_transactions set_array_sort)
  ultimately have "transactions (deleteTransaction True 1000 twice_same_id) = []"
    using ids by (cases "transactions (deleteTransaction True 1000 twice_same_id)") 
      (auto simp: map_eq_Cons_conv)
  then show ?thesis
    using ids delete_twice [of True True 1000 twice_same_id] by simp
qed

text \<open>
  C10 as the specification states it fails when the first write fails and the second
  succeeds: after one Delete the record is still there, after two it is gone.
\<close>

theorem delete_twice_counterexample:
  "transactions (deleteTransaction False 1000 after_first_add) = [(donation 50 7)\<lparr>id_tx := 1000\<rparr>]
   \<and> transactions (deleteTransaction True 1000 (deleteTransaction False 1000 after_first_add)) = []"
  by (simp add: after_first_add_eval deleteTransaction_def saveTransactions_def
      donation_def Let_def)

section \<open>Update\<close>

text \<open>
  C5. An Update whose id no transaction has leaves the collection with the same
  records, whatever the outcome of the write, and in the same order when the list was
  sorted by date. The operation has no error result.
\<close>

theorem update_absent_unchanged:
  "i \<notin> id_tx ` set (transactions s) \<Longrightarrow>
     mset (transactions (updateTransaction ok i u s)) = mset (transactions s)
     \<and> (sorted_desc (transactions s) \<longrightarrow>
          transactions (updateTransaction ok i u s) = transactions s)"
  by (simp add: update_transactions map_absent_id mset_array_sort array_sort_sorted)

theorem update_absent_witness:
  "2000 \<notin> id_tx ` set (transactions after_first_add)
   \<and> sorted_desc (transactions after_first_add)
   \<and> transactions (updateTransaction True 2000 (payout 20 9) after_first_add)
       = transactions after_first_add
   \<and> transactions (updateTransaction False 2000 (payout 20 9) after_first_add)
       = transactions after_first_add"
proof -
  have a: "2000 \<notin> id_tx ` set (transactions after_first_add)"
    by (simp add: after_first_add_eval donation_def)
  have sd: "sorted_desc (transactions after_first_add)"
    by (simp add: after_first_add_eval sorted_desc_def)
  show ?thesis
    using a sd update_absent_unchanged [OF a, of True "payout 20 9"]
      update_absent_unchanged [OF a, of False "payout 20 9"]
    by simp
qed

text \<open>
  C9, as the code has it. When the write succeeds and the id is present, the record
  supplied by the caller, with only its id set to the given one, is in the collection;
  every record with that id is that record, so amount, category and isIncome are the
  caller's; the other records are kept. Nothing is checked: the statement holds for
  every supplied record.
\<close>

theorem update_replaces_verbatim:
  "i \<in> id_tx ` set (transactions s) \<Longrightarrow>
     u\<lparr>id_tx := i\<rparr> \<in> set (transactions (updateTransaction True i u s))
     \<and> (\<forall>t \<in> set (transactions (updateTransaction True i u s)).
           id_tx t = i \<longrightarrow>
             t = u\<lparr>id_tx := i\<rparr> \<and> amount t = amount u \<and> category t = category u
             \<and> isIncome t = isIncome u)
     \<and> mset (filter (\<lambda>t. id_tx t \<noteq> i) (transactions (updateTransaction True i u s)))
         = mset (filter (\<lambda>t. id_tx t \<noteq> i) (transactions s))
     \<and> length (transactions (updateTransaction True i u s)) = length (transactions s)"
proof -
  assume present: "i \<in> id_tx ` set (transactions s)"
  let ?f = "\<lambda>t. if id_tx t = i then u\<lparr>id_tx := i\<rparr> else t"
  let ?res = "transactions (updateTransaction True i u s)"
  have set_res: "set ?res = ?f ` set (transactions s)"
    by (simp add: update_transactions set_array_sort)
  have inside: "u\<lparr>id_tx := i\<rparr> \<in> set ?res"
    using present unfolding set_res by force
  have exact: "\<forall>t \<in> set ?res. id_tx t = i \<longrightarrow>
      t = u\<lparr>id_tx := i\<rparr> \<and> amount t = amount u \<and> category t = category u
      \<and> isIncome t = isIncome u"
  proof (intro ballI impI)
    fix t
    assume "t \<in> set ?res" and hit: "id_tx t = i"
    then obtain x where x: "t = ?f x"
      unfolding set_res by blast
    have eq: "t = u\<lparr>id_tx := i\<rparr>"
    proof (cases "id_tx x = i")
      case True
      with x show ?thesis by simp
    next
      case False
      with x hit show ?thesis by simp
    qed
    have "amount (u\<lparr>id_tx := i\<rparr>) = amount u" "category (u\<lparr>id_tx := i\<rparr>) = category u"
      "isIncome (u\<lparr>id_tx := i\<rparr>) = isIncome u"
      by simp_all
    with eq show "t = u\<lparr>id_tx := i\<rparr> \<and> amount t = amount u \<and> category t = category u
      \<and> isIncome t = isIncome u"
      by metis
  qed
  have fm: "filter (\<lambda>t. id_tx t \<noteq> i) (map ?f ts) = filter (\<lambda>t. id_tx t \<noteq> i) ts" for ts
    by (induction ts) auto
  have "filter (\<lambda>t. id_tx t \<noteq> i) ?res
      = array_sort byDateDesc (filter (\<lambda>t. id_tx t \<noteq> i) (transactions s))"
    by (simp only: update_transactions if_True filter_array_sort fm)
  then have others: "mset (filter (\<lambda>t. id_tx t \<noteq> i) ?res)
      = mset (filter (\<lambda>t. id_tx t \<noteq> i) (transactions s))"
    by (simp only: mset_array_sort)
  have len: "length ?res = length (transactions s)"
    by (simp add: update_transactions length_array_sort)
  show ?thesis using inside exact others len by blast
qed

text \<open>The store takes a negative amount, an unknown category and a changed kind.\<close>

theorem update_replaces_witness:
  "1000 \<in> id_tx ` set (transactions after_first_add)
   \<and> transactions (updateTransaction True 1000 ((payout (- 5) 3)\<lparr>category := ''nonsense''\<rparr>) after_first_add)
      = [(payout (- 5) 3)\<lparr>category := ''nonsense'', id_tx := 1000\<rparr>]"
proof -
  have p: "1000 \<in> id_tx ` set (transactions after_first_add)"
    by (simp add: after_first_add_eval donation_def)
  have "length (transactions (updateTransaction True 1000
          ((payout (- 5) 3)\<lparr>category := ''nonsense''\<rparr>) after_first_add)) = 1"
    using update_replaces_verbatim [OF p, of "(payout (- 5) 3)\<lparr>category := ''nonsense''\<rparr>"]
    by (simp add: after_first_add_eval)
  moreover have "(payout (- 5) 3)\<lparr>category := ''nonsense'', id_tx := 1000\<rparr>
      \<in> set (transactions (updateTransaction True 1000
          ((payout (- 5) 3)\<lparr>category := ''nonsense''\<rparr>) after_first_add))"
    using update_replaces_verbatim [OF p, of "(payout (- 5) 3)\<lparr>category := ''nonsense''\<rparr>"]
    by simp
  ultimately show ?thesis
    using p by (auto simp: length_Suc_conv)
qed

text \<open>
  C9 as the specification states it fails when the write fails: the record in memory
  is still the old one.
\<close>

theorem update_counterexample:
  "1000 \<in> id_tx ` set (transactions after_first_add)
   \<and> transactions (updateTransaction False 1000 (donation 75 7) after_first_add)
       = [(donation 50 7)\<lparr>id_tx := 1000\<rparr>]
   \<and> (donation 75 7)\<lparr>id_tx := 1000\<rparr>
       \<notin> set (transactions (updateTransaction False 1000 (donation 75 7) after_first_add))"
  by (simp add: after_first_add_eval updateTransaction_def saveTransactions_def
      donation_def Let_def)

section \<open>Sorted by date in every reachable state\<close>

lemma array_sort_stable:
  "filter (\<lambda>t. date t = d) (array_sort byDateDesc xs) = filter (\<lambda>t. date t = d) xs"
  using sort_key_stable [of "\<lambda>t. - date t" "- d" xs]
  by (simp add: array_sort_byDateDesc)

lemma save_keeps_sorted:
  "sorted_desc (transactions s) \<Longrightarrow> persisted_sorted s \<Longrightarrow>
     sorted_desc (transactions (saveTransactions ok list s))
     \<and> persisted_sorted (saveTransactions ok list s)"
  by (simp add: transactions_save stored_save persisted_sorted_def sorted_desc_array_sort)

lemma step_keeps_sorted:
  assumes "sorted_desc (transactions s)" and "persisted_sorted s"
  shows "sorted_desc (transactions (step a s)) \<and> persisted_sorted (step a s)"
proof (cases a)
  case Mount
  with assms show ?thesis by (simp add: persisted_sorted_def sorted_desc_def)
next
  case (LoadTransactions ok)
  with assms show ?thesis
    by (simp add: loadTransactions_def persisted_sorted_def sorted_desc_array_sort
        split: option.splits)
next
  case (LoadTheme ok)
  with assms show ?thesis
    by (simp add: loadTheme_def persisted_sorted_def split: option.splits)
next
  case (Add ok now t)
  with assms show ?thesis
    by (simp add: addTransaction_def Let_def save_keeps_sorted del: array_sort.simps)
next
  case (Update ok i u)
  with assms show ?thesis
    by (simp add: updateTransaction_def Let_def save_keeps_sorted)
next
  case (Delete ok i)
  with assms show ?thesis
    by (simp add: deleteTransaction_def Let_def save_keeps_sorted)
next
  case (Toggle ok)
  with assms show ?thesis
    by (simp add: toggleTheme_def Let_def persisted_sorted_def)
qed

lemma run_keeps_sorted:
  "sorted_desc (transactions s) \<Longrightarrow> persisted_sorted s \<Longrightarrow>
     sorted_desc (transactions (run as s)) \<and> persisted_sorted (run as s)"
proof (induction as arbitrary: s)
  case Nil
  then show ?case by simp
next
  case (Cons a as)
  from step_keeps_sorted [OF Cons.prems]
  have "sorted_desc (transactions (step a s))" "persisted_sorted (step a s)"
    by simp_all
  from Cons.IH [OF this] show ?case by simp
qed

lemma fresh_install_sorted:
  "sorted_desc (transactions fresh_install) \<and> persisted_sorted fresh_install"
  by (simp add: fresh_install_def persisted_sorted_def sorted_desc_def)

lemma write_ok_in_sync:
  "write_ok a \<Longrightarrow> stored_transactions (step a s) = Some (transactions (step a s))"
  by (cases a)
    (simp_all add: addTransaction_def updateTransaction_def deleteTransaction_def
      saveTransactions_def Let_def del: array_sort.simps)

text \<open>
  C7. In every state the provider can reach from a fresh install, right after Add,
  Update or Delete the in-memory list is sorted by date, most recent first, and so is
  the stored list; when the write went through, the two are the same list. The date
  is the only key: records with equal dates keep the order they had
  (\<open>array_sort_stable\<close>).
\<close>

theorem sorted_after_mutation:
  "mutating a \<Longrightarrow>
     sorted_desc (transactions (step a (run as fresh_install)))
     \<and> persisted_sorted (step a (run as fresh_install))
     \<and> (write_ok a \<longrightarrow>
          stored_transactions (step a (run as fresh_install))
            = Some (transactions (step a (run as fresh_install))))"
proof -
  have "sorted_desc (transactions (run as fresh_install))"
    "persisted_sorted (run as fresh_install)"
    using run_keeps_sorted fresh_install_sorted by simp_all
  then show ?thesis
    using step_keeps_sorted write_ok_in_sync by blast
qed

theorem sorted_after_mutation_witness:
  "mutating (Add True 4000 (donation 30 8))
   \<and> map date (transactions (step (Add True 4000 (donation 30 8)) (run example_run fresh_install)))
       = [9, 8, 7]
   \<and> sorted_desc (transactions (step (Add True 4000 (donation 30 8)) (run example_run fresh_install)))
   \<and> persisted_sorted (step (Add True 4000 (donation 30 8)) (run example_run fresh_install))"
proof -
  have m: "mutating (Add True 4000 (donation 30 8))" by simp
  have "map date (transactions (step (Add True 4000 (donation 30 8))
          (run example_run fresh_install))) = [9, 8, 7]"
    by (simp add: example_run_def fresh_install_def addTransaction_def loadTransactions_def
        saveTransactions_def donation_def payout_def byDateDesc_def Let_def)
  then show ?thesis
    using m sorted_after_mutation [OF m, of example_run] by simp
qed

section \<open>Theme\<close>

text \<open>
  C8 at the failing input: on a fresh install, a Toggle whose write fails flips the
  in-memory flag and keeps it, but the failure leaves \<open>toggleTheme\<close> as an error
  and nothing is written to the log; the stored theme is untouched.
\<close>

theorem toggle_failure_not_logged:
  "toggleTheme False fresh_install = (Some StorageError, fresh_install\<lparr>isDarkMode := True\<rparr>)
   \<and> console (snd (toggleTheme False fresh_install)) = []
   \<and> stored_theme (snd (toggleTheme False fresh_install)) = None"
  by (simp add: toggleTheme_def fresh_install_def Let_def)

lemma toggleTheme_flips:
  "isDarkMode (snd (toggleTheme ok s)) = (\<not> isDarkMode s)
   \<and> console (snd (toggleTheme ok s)) = console s
   \<and> fst (toggleTheme ok s) = (if ok then None else Some StorageError)
   \<and> stored_theme (snd (toggleTheme True s)) = Some (if isDarkMode s then ''light'' else ''dark'')"
  by (simp add: toggleTheme_def Let_def)

section \<open>The view filter\<close>

lemma startsWith_iff: "startsWith s q \<longleftrightarrow> (\<exists>ss. s = q @ ss)"
  by (induction s q rule: startsWith.induct) auto

lemma includes_str_iff: "includes_str s q \<longleftrightarrow> (\<exists>ps ss. s = ps @ q @ ss)"
proof (induction s)
  case Nil
  then show ?case by simp
next
  case (Cons a s)
  have "(\<exists>ps ss. a # s = ps @ q @ ss)
          \<longleftrightarrow> (\<exists>ss. a # s = q @ ss) \<or> (\<exists>ps ss. s = ps @ q @ ss)"
  proof
    assume "\<exists>ps ss. a # s = ps @ q @ ss"
    then obtain ps ss where eq: "a # s = ps @ q @ ss" by blast
    show "(\<exists>ss. a # s = q @ ss) \<or> (\<exists>ps ss. s = ps @ q @ ss)"
    proof (cases ps)
      case Nil
      with eq show ?thesis by auto
    next
      case (Cons p ps')
      with eq have "s = ps' @ q @ ss" by simp
      then show ?thesis by blast
    qed
  next
    assume "(\<exists>ss. a # s = q @ ss) \<or> (\<exists>ps ss. s = ps @ q @ ss)"
    then show "\<exists>ps ss. a # s = ps @ q @ ss"
    proof
      assume "\<exists>ss. a # s = q @ ss"
      then obtain ss where "a # s = [] @ q @ ss" by auto
      then show ?thesis by blast
    next
      assume "\<exists>ps ss. s = ps @ q @ ss"
      then obtain ps ss where "a # s = (a # ps) @ q @ ss" by auto
      then show ?thesis by blast
    qed
  qed
  with Cons.IH show ?case
    by (simp add: startsWith_iff del: startsWith.simps)
qed

lemma includes_ci_substring:
  "includes_str (toLowerCase s) (toLowerCase q) = ci_substring toLowerCase q s"
  by (simp add: includes_str_iff ci_substring_def)

lemma ci_substring_empty_note:
  assumes "\<forall>x. (toLowerCase x = []) = (x = [])" and "q \<noteq> []"
  shows "\<not> ci_substring toLowerCase q []"
proof -
  from assms have "toLowerCase [] = []" and "toLowerCase q \<noteq> []"
    by blast+
  then show ?thesis
    by (simp add: ci_substring_def)
qed

lemma matchesSearch_spec:
  assumes "\<forall>x. (toLowerCase x = []) = (x = [])"
  shows "matchesSearch toLowerCase q t =
     (q = [] \<or> ci_substring toLowerCase q (category t)
      \<or> (case note_tx t of None \<Rightarrow> False | Some n \<Rightarrow> ci_substring toLowerCase q n))"
proof (cases "note_tx t")
  case None
  then show ?thesis by (simp add: matchesSearch_def includes_ci_substring)
next
  case (Some n)
  show ?thesis
  proof (cases "n = [] \<and> q \<noteq> []")
    case True
    with Some ci_substring_empty_note [OF assms] show ?thesis
      by (simp add: matchesSearch_def includes_ci_substring)
  next
    case False
    with Some show ?thesis
      by (auto simp: matchesSearch_def includes_ci_substring)
  qed
qed

lemma matchesCategory_spec:
  "matchesCategory sel t = (set sel = {} \<or> category t \<in> set sel)"
  by (simp add: matchesCategory_def)

text \<open>
  C6. For every list \<open>T\<close>, kind, selection \<open>sel\<close> and search text \<open>q\<close>, the filter of
  the screen of that kind returns exactly the transactions of \<open>T\<close> whose kind matches,
  whose category is in the selection (or the selection is empty), and for which \<open>q\<close>
  is empty or a case-insensitive substring of the category or of a present note, in
  the order of \<open>T\<close>. The one thing asked of the platform's \<open>toLowerCase\<close> is that it
  maps the empty string, and only the empty string, to the empty string.
\<close>

theorem view_filter:
  assumes "\<forall>x. (toLowerCase x = []) = (x = [])"
  shows "(if kind then IncomeScreen_filteredTransactions toLowerCase sel q T
          else ExpenseScreen_filteredTransactions toLowerCase sel q T)
         = View_spec toLowerCase kind (set sel) q T"
proof -
  have "filter (\<lambda>t. matchesCategory sel t \<and> matchesSearch toLowerCase q t)
          (filter (\<lambda>t. isIncome t = kind) T) = View_spec toLowerCase kind (set sel) q T"
    unfolding View_spec_def filter_filter
    by (rule filter_cong [OF refl])
      (auto simp: matchesCategory_spec matchesSearch_spec [OF assms])
  then show ?thesis
    by (cases kind)
      (simp_all add: IncomeScreen_filteredTransactions_def ExpenseScreen_filteredTransactions_def)
qed

theorem view_filter_witness:
  "(\<forall>x. (ascii_toLowerCase x = []) = (x = []))
   \<and> map id_tx (View_spec ascii_toLowerCase True (set [''Sonstiges'']) ''aNL'' example_list) = [0]
   \<and> map id_tx (View_spec ascii_toLowerCase True (set []) ''aNL'' example_list) = [3, 0]
   \<and> map id_tx (View_spec ascii_toLowerCase False (set []) ''ARG'' example_list) = [2]"
proof -
  have e: "\<forall>x. (ascii_toLowerCase x = []) = (x = [])"
    by (simp add: ascii_toLowerCase_def)
  have "map id_tx (IncomeScreen_filteredTransactions ascii_toLowerCase [''Sonstiges''] ''aNL'' example_list) = [0]"
    "map id_tx (IncomeScreen_filteredTransactions ascii_toLowerCase [] ''aNL'' example_list) = [3, 0]"
    "map id_tx (ExpenseScreen_filteredTransactions ascii_toLowerCase [] ''ARG'' example_list) = [2]"
    by code_simp+
  then show ?thesis
    using e view_filter [OF e, of True "[''Sonstiges'']" "''aNL''" example_list]
      view_filter [OF e, of True "[]" "''aNL''" example_list]
      view_filter [OF e, of False "[]" "''ARG''" example_list]
    by simp
qed

end
